theory Spec2Isabelle
  imports Complex_Main "HOL-Library.Multiset" "HOL-Library.Product_Lexorder"
begin

section \<open>JavaScript values and built-ins used by the keyword tool\<close>

text \<open>
  A JavaScript string is a sequence of UTF-16 code units. A code unit is kept as a
  natural number, so that every string the program can receive (also one holding
  whitespace beyond Latin-1) is a value of the model. \<open>str\<close> turns an ASCII
  literal into such a string.
\<close>

type_synonym js_string = "nat list"

definition str :: "string \<Rightarrow> js_string" where
  "str s = map of_char s"

text \<open>
  The code units that \<open>String.prototype.trim\<close> and \<open>parseInt\<close> skip: ECMAScript's
  WhiteSpace (TAB, VT, FF, SP, NBSP, ZWNBSP and the space separators U+1680,
  U+2000..U+200A, U+202F, U+205F, U+3000) and LineTerminator (LF, CR, U+2028, U+2029).
\<close>

definition is_js_whitespace :: "nat \<Rightarrow> bool" where
  "is_js_whitespace c \<longleftrightarrow>
     c \<in> {9, 10, 11, 12, 13, 32, 160, 5760, 8232, 8233, 8239, 8287, 12288, 65279}
     \<or> (8192 \<le> c \<and> c \<le> 8202)"

text \<open>\<open>String.prototype.trim\<close>: whitespace is dropped at the front, then at the back.\<close>

definition js_trim :: "js_string \<Rightarrow> js_string" where
  "js_trim s = rev (dropWhile is_js_whitespace (rev (dropWhile is_js_whitespace s)))"

text \<open>
  \<open>String.prototype.split\<close> with a separator of one code unit: the string is cut at
  every occurrence of the separator; the empty string gives one empty piece.
\<close>

fun js_split :: "nat \<Rightarrow> js_string \<Rightarrow> js_string list" where
  "js_split sep [] = [[]]"
| "js_split sep (c # cs) =
     (if c = sep then [] # js_split sep cs
      else (case js_split sep cs of
              [] \<Rightarrow> [[c]]
            | p # ps \<Rightarrow> (c # p) # ps))"

text \<open>
  \<open>Array.prototype.slice(start, end)\<close> on integers: a negative index counts from the
  end of the array, and both indices are clamped to the array.
\<close>

definition js_slice :: "'a list \<Rightarrow> int \<Rightarrow> int \<Rightarrow> 'a list" where
  "js_slice xs start end =
     (let len = int (length xs);
          k = (if start < 0 then max (len + start) 0 else min start len);
          final = (if end < 0 then max (len + end) 0 else min end len)
      in take (nat (final - k)) (drop (nat k) xs))"

text \<open>
  \<open>parseInt(string, radix)\<close>, with radix 0 for a call without radix. The digit value of
  a code unit is 36 when it is no digit of any radix. Leading whitespace is skipped, a
  sign is read, \<open>0x\<close> or \<open>0X\<close> switches to radix 16 when no radix or radix 16 is given,
  and the longest prefix of digits is converted; \<open>None\<close> is \<open>NaN\<close>. JavaScript rounds
  results beyond 2^53; the program only compares the results with 0, 1 and 20, which
  rounding does not change.
\<close>

definition digit_value :: "nat \<Rightarrow> nat" where
  "digit_value c =
     (if 48 \<le> c \<and> c \<le> 57 then c - 48
      else if 97 \<le> c \<and> c \<le> 122 then c - 87
      else if 65 \<le> c \<and> c \<le> 90 then c - 55
      else 36)"

definition js_parseInt :: "js_string \<Rightarrow> nat \<Rightarrow> int option" where
  "js_parseInt inputString radix =
     (let S = dropWhile is_js_whitespace inputString;
          sign = (if S \<noteq> [] \<and> hd S = 45 then - 1 else 1 :: int);
          S1 = (if S \<noteq> [] \<and> (hd S = 43 \<or> hd S = 45) then tl S else S);
          stripPrefix = (radix = 0 \<or> radix = 16);
          hex = (stripPrefix \<and> (take 2 S1 = [48, 120] \<or> take 2 S1 = [48, 88]));
          R = (if hex then 16 else if radix = 0 then 10 else radix);
          S2 = (if hex then drop 2 S1 else S1);
          Z = takeWhile (\<lambda>c. digit_value c < R) S2
      in if radix \<noteq> 0 \<and> (radix < 2 \<or> 36 < radix) then None
         else if Z = [] then None
         else Some (sign * int (foldl (\<lambda>n c. n * R + digit_value c) 0 Z)))"

text \<open>
  \<open>Array.prototype.sort\<close> with a comparator. ECMAScript (2019 and later; the README
  asks for Node.js 14 or higher) requires the sort to be stable: \<open>a\<close> stays before
  \<open>b\<close> unless the comparator puts \<open>b\<close> first. The built-in is modelled by the stable
  insertion sort: an element is placed before the first element it does not have to
  follow, and the elements are inserted from the last to the first. For the comparator
  of this program every stable sort returns the same list (lemma
  \<open>rankResults_unique\<close> below).
\<close>

fun js_insert :: "('a \<Rightarrow> 'a \<Rightarrow> int) \<Rightarrow> 'a \<Rightarrow> 'a list \<Rightarrow> 'a list" where
  "js_insert cmp a [] = [a]"
| "js_insert cmp a (b # bs) =
     (if cmp a b \<le> 0 then a # b # bs else b # js_insert cmp a bs)"

fun js_sort :: "('a \<Rightarrow> 'a \<Rightarrow> int) \<Rightarrow> 'a list \<Rightarrow> 'a list" where
  "js_sort cmp [] = []"
| "js_sort cmp (a # as) = js_insert cmp a (js_sort cmp as)"

section \<open>Keyword results and their ranking\<close>

text \<open>
  The object literal built by \<open>analyzeKeywordParallel\<close> (src/unnamed/part_001, lines
  112-119 and 122-130). The property \<open>error\<close> exists on the degraded object only.
  The scores are integers, as in the specification's data model.
\<close>

record KeywordResult =
  keyword :: js_string
  trafficScore :: int
  difficultyScore :: int
  competitionLevel :: js_string
  trafficLevel :: js_string
  recommendation :: js_string
  error :: "js_string option"

text \<open>
  The comparator passed to \<open>results.sort\<close> (part_001, lines 194-199):
  \<^verbatim>\<open>
  (a, b) => {
    if (b.trafficScore !== a.trafficScore) {
      return b.trafficScore - a.trafficScore;
    }
    return a.difficultyScore - b.difficultyScore;
  }
  \<close>
\<close>

definition compareResults :: "KeywordResult \<Rightarrow> KeywordResult \<Rightarrow> int" where
  "compareResults a b =
     (if trafficScore b \<noteq> trafficScore a then trafficScore b - trafficScore a
      else difficultyScore a - difficultyScore b)"

text \<open>The contents of \<open>results\<close> after line 199, from its contents before line 194.\<close>

definition rankResults :: "KeywordResult list \<Rightarrow> KeywordResult list" where
  "rankResults rs = js_sort compareResults rs"

text \<open>
  The same statement \<open>results.sort(...)\<close> with the store written out.
  \<open>Array.prototype.sort\<close> sorts the array it is called on and returns that array; the
  elements of \<open>results\<close> are references to the objects built by
  \<open>analyzeKeywordParallel\<close>. A heap maps a reference to its object and an array
  reference to the references the array holds.
\<close>

type_synonym ref = nat

record heap =
  objects :: "ref \<Rightarrow> KeywordResult"
  arrays :: "ref \<Rightarrow> ref list"

definition Array_sort ::
  "(KeywordResult \<Rightarrow> KeywordResult \<Rightarrow> int) \<Rightarrow> ref \<Rightarrow> heap \<Rightarrow> ref \<times> heap" where
  "Array_sort cmp a h =
     (a, h\<lparr>arrays := (arrays h)(a := js_sort (\<lambda>p q. cmp (objects h p) (objects h q)) (arrays h a))\<rparr>)"

text \<open>Lines 194-199 on the heap: the value of the expression and the heap afterwards.\<close>

definition sortResults :: "ref \<Rightarrow> heap \<Rightarrow> ref \<times> heap" where
  "sortResults rs h = Array_sort compareResults rs h"

section \<open>The batch orchestrator\<close>

text \<open>
  The scorer is an external service (\<open>services/aso-analyzer\<close> over the aso-v2 library);
  the program only awaits \<open>asoAnalyzer.analyzeKeyword(keyword)\<close> inside a \<open>try\<close> and
  reads six properties of what it resolves to. The model takes the scorer as a
  parameter: \<open>asoAnalyzer n kw\<close> is what the call for \<open>kw\<close> settles to when \<open>n\<close> calls
  were issued before it, either \<open>Resolved\<close> with the analysis or \<open>Rejected\<close> with the
  \<open>message\<close> of whatever was thrown inside the \<open>try\<close> block. The index lets one
  keyword fail at one call and succeed at another.
\<close>

record Analysis =
  an_keyword :: js_string
  an_trafficScore :: int
  an_difficultyScore :: int
  an_competitionLevel :: js_string
  an_trafficLevel :: js_string
  an_recommendation :: js_string

datatype settled = Resolved Analysis | Rejected js_string

type_synonym ASOAnalyzer = "nat \<Rightarrow> js_string \<Rightarrow> settled"

text \<open>
  What a run does besides computing its result: \<open>Issue kw\<close> is one call of
  \<open>asoAnalyzer.analyzeKeyword(kw)\<close>, \<open>AwaitAll n\<close> is \<open>await Promise.all\<close> over the \<open>n\<close>
  promises of a batch, \<open>Delay ms\<close> is the awaited \<open>setTimeout(resolve, ms)\<close>. Console
  output is left out.
\<close>

datatype event = Issue js_string | AwaitAll nat | Delay nat

text \<open>
  \<open>analyzeKeywordParallel\<close> (part_001, lines 108-132): one call of the scorer inside
  \<open>try\<close>; the \<open>catch\<close> branch builds the degraded object from the keyword passed in and
  the message of the error. The third argument is the number of calls issued earlier.
\<close>

definition analyzeKeywordParallel ::
  "js_string \<Rightarrow> ASOAnalyzer \<Rightarrow> nat \<Rightarrow> KeywordResult \<times> event list" where
  "analyzeKeywordParallel kw asoAnalyzer n =
     (case asoAnalyzer n kw of
        Resolved analysis \<Rightarrow>
          (\<lparr>keyword = an_keyword analysis,
            trafficScore = an_trafficScore analysis,
            difficultyScore = an_difficultyScore analysis,
            competitionLevel = an_competitionLevel analysis,
            trafficLevel = an_trafficLevel analysis,
            recommendation = an_recommendation analysis,
            error = None\<rparr>, [Issue kw])
      | Rejected message \<Rightarrow>
          (\<lparr>keyword = kw,
            trafficScore = 0,
            difficultyScore = 0,
            competitionLevel = str ''unknown'',
            trafficLevel = str ''unknown'',
            recommendation = str ''analysis_failed'',
            error = Some message\<rparr>, [Issue kw]))"

text \<open>
  \<open>processKeywordsBatch\<close> (part_001, lines 141-162). The state of the loop is the array
  \<open>results\<close>, the events so far and the number of scorer calls issued so far. One
  iteration, for the loop index \<open>i\<close>: slice the batch, map \<open>analyzeKeywordParallel\<close>
  over it (the calls are issued in the order of the batch, and \<open>Promise.all\<close> delivers
  the results in that order), push the batch results, and wait one second when
  \<open>i + batchSize < keywords.length\<close>.
\<close>

record run_state =
  results :: "KeywordResult list"
  trace :: "event list"
  issued :: nat

definition processKeywordsBatch_body ::
  "js_string list \<Rightarrow> ASOAnalyzer \<Rightarrow> int \<Rightarrow> int \<Rightarrow> run_state \<Rightarrow> run_state" where
  "processKeywordsBatch_body keywords asoAnalyzer batchSize i st =
     (let batch = js_slice keywords i (i + batchSize);
          batchResults = map2 (\<lambda>k kw. analyzeKeywordParallel kw asoAnalyzer (issued st + k))
                           [0..<length batch] batch;
          st1 = \<lparr>results = results st @ map fst batchResults,
                 trace = trace st @ concat (map snd batchResults) @ [AwaitAll (length batch)],
                 issued = issued st + length batch\<rparr>
      in if i + batchSize < int (length keywords)
         then st1\<lparr>trace := trace st1 @ [Delay 1000]\<rparr>
         else st1)"

text \<open>
  The \<open>for\<close> loop: \<open>for (let i = 0; i < keywords.length; i += batchSize)\<close>. Nothing in the
  function bounds \<open>batchSize\<close> from below, so the loop need not end: a run that never
  leaves the loop has the value \<open>None\<close>.
\<close>

partial_function (option) processKeywordsBatch_loop ::
  "js_string list \<Rightarrow> ASOAnalyzer \<Rightarrow> int \<Rightarrow> int \<Rightarrow> run_state \<Rightarrow> run_state option" where
  "processKeywordsBatch_loop keywords asoAnalyzer batchSize i st =
     (if i < int (length keywords)
      then processKeywordsBatch_loop keywords asoAnalyzer batchSize (i + batchSize)
             (processKeywordsBatch_body keywords asoAnalyzer batchSize i st)
      else Some st)"

declare processKeywordsBatch_loop.simps [code]

definition processKeywordsBatch ::
  "js_string list \<Rightarrow> ASOAnalyzer \<Rightarrow> int \<Rightarrow> (KeywordResult list \<times> event list) option" where
  "processKeywordsBatch keywords asoAnalyzer batchSize =
     map_option (\<lambda>st. (results st, trace st))
       (processKeywordsBatch_loop keywords asoAnalyzer batchSize 0
          \<lparr>results = [], trace = [], issued = 0\<rparr>)"

section \<open>searchKeywords\<close>

text \<open>
  The first statement of \<open>searchKeywords\<close> (part_001, lines 171-174):
  \<^verbatim>\<open>keywordsString.split(',').map(keyword => keyword.trim()).filter(keyword => keyword.length > 0)\<close>
  The comma is the code unit 44.
\<close>

definition normalizeKeywords :: "js_string \<Rightarrow> js_string list" where
  "normalizeKeywords keywordsString =
     filter (\<lambda>kw. length kw > 0) (map js_trim (js_split 44 keywordsString))"

text \<open>
  \<open>searchKeywords\<close> (part_001, lines 169-219): the early return of the empty array when
  no keyword is left, otherwise the batch run followed by the sort. The scorer, which
  the source constructs as \<open>new ASOAnalyzer('itunes')\<close>, is a parameter; the console
  output and the timing are left out.
\<close>

definition searchKeywords ::
  "js_string \<Rightarrow> int \<Rightarrow> ASOAnalyzer \<Rightarrow> (KeywordResult list \<times> event list) option" where
  "searchKeywords keywordsString concurrency asoAnalyzer =
     (let keywords = normalizeKeywords keywordsString
      in if length keywords = 0 then Some ([], [])
         else map_option (\<lambda>(rs, tr). (rankResults rs, tr))
                (processKeywordsBatch keywords asoAnalyzer concurrency))"

section \<open>The command line\<close>

text \<open>
  The block run when the file is the main module (part_001, lines 258-317), for
  \<open>args = process.argv.slice(2)\<close>. The outcome is the first of: \<open>process.exit(code)\<close>
  after the error message, the call of \<open>searchKeywords\<close>, the call of \<open>analyzeApp\<close>.
  \<open>arg_at args k\<close> is \<open>args[k]\<close>, \<open>None\<close> for \<open>undefined\<close>; \<open>parseInt\<close> turns
  \<open>undefined\<close> into the string \<open>undefined\<close> first. \<open>!args[1]\<close> holds for a missing and
  for an empty argument, and \<open>parseInt(args[2]) || 3\<close> is 3 when the parse is \<open>NaN\<close> or 0.
\<close>

datatype cli_outcome =
    Exit int
  | CallSearchKeywords js_string int
  | CallAnalyzeApp js_string

definition js_ToString_arg :: "js_string option \<Rightarrow> js_string" where
  "js_ToString_arg a = (case a of None \<Rightarrow> str ''undefined'' | Some s \<Rightarrow> s)"

definition arg_at :: "js_string list \<Rightarrow> nat \<Rightarrow> js_string option" where
  "arg_at args k = (if k < length args then Some (args ! k) else None)"

definition cli_main :: "js_string list \<Rightarrow> cli_outcome" where
  "cli_main args =
     (if length args = 0 then Exit 1
      else if arg_at args 0 = Some (str ''-search'') then
        (case arg_at args 1 of
           None \<Rightarrow> Exit 1
         | Some keywordsString \<Rightarrow>
             if keywordsString = [] then Exit 1
             else
               (let concurrency =
                      (case js_parseInt (js_ToString_arg (arg_at args 2)) 0 of
                         None \<Rightarrow> 3
                       | Some n \<Rightarrow> if n = 0 then 3 else n)
                in if concurrency < 1 \<or> concurrency > 20 then Exit 1
                   else CallSearchKeywords keywordsString concurrency))
      else
        (case js_parseInt (js_ToString_arg (arg_at args 0)) 10 of
           None \<Rightarrow> Exit 1
         | Some numericAppId \<Rightarrow>
             if numericAppId \<le> 0 then Exit 1
             else CallAnalyzeApp (args ! 0)))"

section \<open>collectAppData\<close>

text \<open>
  \<open>collectAppData\<close> (part_001, lines 8-40; src/main.js, lines 6-41, is the same function
  with more console output). The scraper (\<open>services/app-store-scraper\<close>) is external:
  \<open>getAppData n id\<close> is what the call for \<open>id\<close> settles to when \<open>n\<close> calls of
  \<open>getAppData\<close> were made before it, \<open>getSimilarApps id\<close> is what that call settles to.
  A similar app is represented by its \<open>id\<close>, the only property the function reads; the
  metadata of an app is of any type \<open>'d\<close>.
\<close>

datatype 'd fetched = Fetched 'd | FetchFailed js_string

type_synonym 'd getAppData = "nat \<Rightarrow> int \<Rightarrow> 'd fetched"
type_synonym getSimilarApps = "int \<Rightarrow> int list fetched"

text \<open>
  The \<open>for\<close> loop over \<open>top3SimilarApps\<close> (lines 26-33): a fetched record is pushed to
  \<open>similarAppsData\<close>; a failed fetch is caught and logged with \<open>console.warn\<close>, recorded
  here by the id in the list \<open>warned\<close>.
\<close>

fun scrapeSimilarApps ::
  "'d getAppData \<Rightarrow> nat \<Rightarrow> int list \<Rightarrow> 'd list \<Rightarrow> int list \<Rightarrow> 'd list \<times> int list" where
  "scrapeSimilarApps getAppData n [] similarAppsData warned = (similarAppsData, warned)"
| "scrapeSimilarApps getAppData n (similarApp # rest) similarAppsData warned =
     (case getAppData n similarApp of
        Fetched similarAppData \<Rightarrow>
          scrapeSimilarApps getAppData (Suc n) rest (similarAppsData @ [similarAppData]) warned
      | FetchFailed message \<Rightarrow>
          scrapeSimilarApps getAppData (Suc n) rest similarAppsData (warned @ [similarApp]))"

text \<open>
  The result is \<open>Inl\<close> with the message of the error the function throws, or \<open>Inr\<close> with
  the returned object \<open>{ appData, similarApps, numericAppId }\<close> as a triple, next to the
  ids warned about.
\<close>

definition collectAppData ::
  "'d getAppData \<Rightarrow> getSimilarApps \<Rightarrow> js_string
     \<Rightarrow> js_string + (('d \<times> 'd list \<times> int) \<times> int list)" where
  "collectAppData getAppData getSimilarApps appId =
     (case js_parseInt appId 10 of
        None \<Rightarrow> Inl (str ''App ID must be a valid numeric value'')
      | Some numericAppId \<Rightarrow>
          if numericAppId \<le> 0 then Inl (str ''App ID must be a valid numeric value'')
          else
            (case getAppData 0 numericAppId of
               FetchFailed message \<Rightarrow> Inl message
             | Fetched appData \<Rightarrow>
                 (case getSimilarApps numericAppId of
                    FetchFailed message \<Rightarrow> Inl message
                  | Fetched allSimilarApps \<Rightarrow>
                      (let top3SimilarApps = js_slice allSimilarApps 0 3;
                           (similarAppsData, warned) =
                              scrapeSimilarApps getAppData 1 top3SimilarApps [] []
                       in Inr ((appData, similarAppsData, numericAppId), warned)))))"

section \<open>The specification's notions\<close>

text \<open>
  The order the specification asks for: \<open>a\<close> may stand before \<open>b\<close> when its traffic
  score is higher, or the traffic scores are equal and its difficulty score is not
  higher. \<open>rank_key\<close> is the same order as a sort key, compared lexicographically.
\<close>

definition ranked_before :: "KeywordResult \<Rightarrow> KeywordResult \<Rightarrow> bool" where
  "ranked_before a b \<longleftrightarrow>
     trafficScore a > trafficScore b \<or>
     (trafficScore a = trafficScore b \<and> difficultyScore a \<le> difficultyScore b)"

definition rank_key :: "KeywordResult \<Rightarrow> int \<times> int" where
  "rank_key r = (- trafficScore r, difficultyScore r)"

text \<open>
  The partition of the specification: contiguous pieces of \<open>w\<close> keywords, the last one
  possibly shorter. \<open>join_with d\<close> concatenates pieces with \<open>d\<close> between neighbours.
\<close>

function chunks :: "nat \<Rightarrow> 'a list \<Rightarrow> 'a list list" where
  "chunks w xs = (if w = 0 \<or> xs = [] then [] else take w xs # chunks w (drop w xs))"
  by pat_completeness auto
termination
  by (relation "measure (\<lambda>(w, xs). length xs)") auto

declare chunks.simps [simp del]

fun join_with :: "'a list \<Rightarrow> 'a list list \<Rightarrow> 'a list" where
  "join_with d [] = []"
| "join_with d [b] = b"
| "join_with d (b # c # cs) = b @ d @ join_with d (c # cs)"

text \<open>The events of one batch: its calls in order, then the wait for all of them.\<close>

definition batch_events :: "js_string list \<Rightarrow> event list" where
  "batch_events b = map Issue b @ [AwaitAll (length b)]"

fun is_Delay :: "event \<Rightarrow> bool" where
  "is_Delay (Delay ms) = True"
| "is_Delay e = False"

fun is_Issue :: "event \<Rightarrow> bool" where
  "is_Issue (Issue k) = True"
| "is_Issue e = False"

text \<open>The result of every keyword on its own: the call for position \<open>n + j\<close> decides entry \<open>j\<close>.\<close>

fun results_from :: "ASOAnalyzer \<Rightarrow> nat \<Rightarrow> js_string list \<Rightarrow> KeywordResult list" where
  "results_from an n [] = []"
| "results_from an n (kw # kws) = fst (analyzeKeywordParallel kw an n) # results_from an (Suc n) kws"

text \<open>
  The fetches of the similar apps on their own: each id with what its fetch settles to,
  the records of the fetches that succeeded, the ids of those that failed.
\<close>

fun outcomes :: "'d getAppData \<Rightarrow> nat \<Rightarrow> int list \<Rightarrow> (int \<times> 'd fetched) list" where
  "outcomes g n [] = []"
| "outcomes g n (sid # sids) = (sid, g n sid) # outcomes g (Suc n) sids"

fun fetched_of :: "(int \<times> 'd fetched) list \<Rightarrow> 'd list" where
  "fetched_of [] = []"
| "fetched_of ((sid, Fetched d) # os) = d # fetched_of os"
| "fetched_of ((sid, FetchFailed m) # os) = fetched_of os"

fun failed_of :: "(int \<times> 'd fetched) list \<Rightarrow> int list" where
  "failed_of [] = []"
| "failed_of ((sid, Fetched d) # os) = failed_of os"
| "failed_of ((sid, FetchFailed m) # os) = sid # failed_of os"

section \<open>Concrete inputs\<close>

text \<open>An entry of the specification's ranking example; the other fields play no part.\<close>

definition example_result :: "string \<Rightarrow> int \<Rightarrow> int \<Rightarrow> KeywordResult" where
  "example_result kw traffic diff =
     \<lparr>keyword = str kw, trafficScore = traffic, difficultyScore = diff,
      competitionLevel = [], trafficLevel = [], recommendation = [], error = None\<rparr>"

text \<open>The array \<open>results\<close> at reference 0 holding the three entries of that example.\<close>

definition example_heap :: heap where
  "example_heap =
     \<lparr>objects = (\<lambda>r. if r = 1 then example_result ''a'' 50 30
                     else if r = 2 then example_result ''b'' 70 10
                     else example_result ''c'' 50 20),
      arrays = (\<lambda>r. if r = 0 then [1, 2, 3] else [])\<rparr>"

definition example_keywords :: "js_string list" where
  "example_keywords = [str ''a'', str ''b'', str ''cc'', str ''d'']"

definition seven_keywords :: "js_string list" where
  "seven_keywords = [str ''k1'', str ''k2'', str ''k3'', str ''k4'', str ''k5'', str ''k6'', str ''k7'']"

text \<open>A scorer whose call for the keyword \<open>b\<close> fails and whose other calls succeed.\<close>

definition example_analyzer :: ASOAnalyzer where
  "example_analyzer n kw =
     (if kw = str ''b'' then Rejected (str ''timeout'')
      else Resolved \<lparr>an_keyword = kw, an_trafficScore = int (length kw) * 10,
             an_difficultyScore = int n, an_competitionLevel = str ''low'',
             an_trafficLevel = str ''high'', an_recommendation = str ''target''\<rparr>)"

text \<open>A scraper for which the fetch of app 20 fails; app 5 has four similar apps.\<close>

definition example_getAppData :: "js_string getAppData" where
  "example_getAppData n sid =
     (if sid = 20 then FetchFailed (str ''not found'')
      else if sid = 5 then Fetched (str ''main'')
      else if sid = 10 then Fetched (str ''ten'')
      else if sid = 30 then Fetched (str ''thirty'')
      else Fetched (str ''other''))"

definition example_getSimilarApps :: getSimilarApps where
  "example_getSimilarApps sid = Fetched [10, 20, 30, 40]"

section \<open>Properties of the ranking step\<close>

lemma compareResults_le0: "compareResults a b \<le> 0 \<longleftrightarrow> ranked_before a b"
  by (auto simp: compareResults_def ranked_before_def)

lemma ranked_before_total: "\<not> ranked_before a b \<Longrightarrow> ranked_before b a"
  by (auto simp: ranked_before_def)

lemma ranked_before_trans: "ranked_before a b \<Longrightarrow> ranked_before b c \<Longrightarrow> ranked_before a c"
  by (auto simp: ranked_before_def)

lemma mset_js_insert: "mset (js_insert cmp a bs) = add_mset a (mset bs)"
  by (induction bs) auto

lemma mset_js_sort: "mset (js_sort cmp as) = mset as"
  by (induction as) (auto simp: mset_js_insert)

lemma set_js_insert: "set (js_insert cmp a bs) = insert a (set bs)"
  by (induction bs) auto

lemma sorted_js_insert:
  "sorted_wrt ranked_before bs \<Longrightarrow> sorted_wrt ranked_before (js_insert compareResults a bs)"
proof (induction bs)
  case Nil
  show ?case by simp
next
  case (Cons b bs)
  show ?case
  proof (cases "ranked_before a b")
    case True
    have "\<forall>c\<in>set bs. ranked_before a c"
      using Cons.prems True ranked_before_trans by auto
    with True Cons.prems show ?thesis by (simp add: compareResults_le0)
  next
    case False
    then have "ranked_before b a" by (rule ranked_before_total)
    with False Cons show ?thesis
      by (auto simp: compareResults_le0 set_js_insert)
  qed
qed

lemma sorted_js_sort: "sorted_wrt ranked_before (js_sort compareResults as)"
  by (induction as) (auto simp: sorted_js_insert)

lemma filter_js_insert_other:
  "\<not> P a \<Longrightarrow> filter P (js_insert cmp a bs) = filter P bs"
  by (induction bs) auto

lemma filter_js_insert_tied:
  assumes "\<And>b. P b \<Longrightarrow> cmp a b \<le> 0" and "P a"
  shows "filter P (js_insert cmp a bs) = a # filter P bs"
  using assms by (induction bs) auto

lemma filter_js_sort_tied:
  assumes "\<And>a b. P a \<Longrightarrow> P b \<Longrightarrow> cmp a b \<le> 0"
  shows "filter P (js_sort cmp as) = filter P as"
proof (induction as)
  case Nil
  show ?case by simp
next
  case (Cons a as)
  show ?case
  proof (cases "P a")
    case True
    then have "filter P (js_insert cmp a (js_sort cmp as)) = a # filter P (js_sort cmp as)"
      using assms by (intro filter_js_insert_tied) auto
    with True Cons.IH show ?thesis by simp
  next
    case False
    with Cons.IH show ?thesis by (simp add: filter_js_insert_other)
  qed
qed

lemma js_sort_sorted_id:
  "sorted_wrt ranked_before as \<Longrightarrow> js_sort compareResults as = as"
proof (induction as)
  case Nil
  show ?case by simp
next
  case (Cons a as)
  then have "js_sort compareResults as = as" by simp
  moreover have "js_insert compareResults a as = a # as"
    using Cons.prems by (cases as) (auto simp: compareResults_le0)
  ultimately show ?case by simp
qed

lemma ranked_before_key: "ranked_before a b \<longleftrightarrow> rank_key a \<le> rank_key b"
  by (auto simp: ranked_before_def rank_key_def less_eq_prod_def)

lemma sorted_map_rank_key: "sorted (map rank_key xs) \<longleftrightarrow> sorted_wrt ranked_before xs"
  by (simp add: sorted_map ranked_before_key [abs_def])

lemma rankResults_sort_key: "rankResults rs = sort_key rank_key rs"
proof (rule properties_for_sort_key [symmetric])
  show "mset (rankResults rs) = mset rs"
    by (simp add: rankResults_def mset_js_sort)
  show "sorted (map rank_key (rankResults rs))"
    by (simp add: sorted_map_rank_key rankResults_def sorted_js_sort)
  show "filter (\<lambda>x. rank_key k = rank_key x) (rankResults rs) = filter (\<lambda>x. rank_key k = rank_key x) rs"
    if "k \<in> set (rankResults rs)" for k
    unfolding rankResults_def
    by (rule filter_js_sort_tied) (auto simp: compareResults_def rank_key_def)
qed

lemma rankResults_unique:
  assumes "mset ys = mset rs" and "sorted_wrt ranked_before ys"
    and "\<And>t d. filter (\<lambda>r. trafficScore r = t \<and> difficultyScore r = d) ys
               = filter (\<lambda>r. trafficScore r = t \<and> difficultyScore r = d) rs"
  shows "ys = rankResults rs"
proof -
  have "sort_key rank_key rs = ys"
  proof (rule properties_for_sort_key)
    show "mset ys = mset rs" by (rule assms(1))
    show "sorted (map rank_key ys)" using assms(2) by (simp add: sorted_map_rank_key)
    show "filter (\<lambda>x. rank_key k = rank_key x) ys = filter (\<lambda>x. rank_key k = rank_key x) rs"
      if "k \<in> set ys" for k
    proof -
      have "(\<lambda>x. rank_key k = rank_key x)
           = (\<lambda>r. trafficScore r = trafficScore k \<and> difficultyScore r = difficultyScore k)"
        by (auto simp: rank_key_def)
      then show ?thesis using assms(3) by simp
    qed
  qed
  then show ?thesis by (simp add: rankResults_sort_key)
qed

text \<open>
  C4. The Result Ranker returns its input reordered (the same entries, each as often as
  before) so that trafficScore descends and, among equal traffic scores, difficultyScore
  ascends: it is the stable sort by the key (trafficScore descending, difficultyScore
  ascending). The specification's example a(50/30), b(70/10), c(50/20) ranks as b, c, a.
\<close>

theorem C4_ranker_sorts:
  "mset (rankResults rs) = mset rs
   \<and> sorted_wrt ranked_before (rankResults rs)
   \<and> rankResults rs = sort_key rank_key rs
   \<and> rankResults [example_result ''a'' 50 30, example_result ''b'' 70 10, example_result ''c'' 50 20]
       = [example_result ''b'' 70 10, example_result ''c'' 50 20, example_result ''a'' 50 30]"
proof (intro conjI)
  show "mset (rankResults rs) = mset rs"
    by (simp add: rankResults_def mset_js_sort)
  show "sorted_wrt ranked_before (rankResults rs)"
    by (simp add: rankResults_def sorted_js_sort)
  show "rankResults rs = sort_key rank_key rs"
    by (rule rankResults_sort_key)
  show "rankResults [example_result ''a'' 50 30, example_result ''b'' 70 10, example_result ''c'' 50 20]
       = [example_result ''b'' 70 10, example_result ''c'' 50 20, example_result ''a'' 50 30]"
    by (simp add: rankResults_def compareResults_def example_result_def)
qed

text \<open>
  C5. The Result Ranker is stable: for every pair of scores, the entries having exactly
  that trafficScore and that difficultyScore appear in the output in the order they had
  in the input. It is idempotent: a sequence that is already in ranking order is returned
  as it is, and ranking a ranked sequence changes nothing.
\<close>

theorem C5_ranker_stable_idempotent:
  "filter (\<lambda>r. trafficScore r = t \<and> difficultyScore r = d) (rankResults rs)
     = filter (\<lambda>r. trafficScore r = t \<and> difficultyScore r = d) rs
   \<and> (sorted_wrt ranked_before rs \<longrightarrow> rankResults rs = rs)
   \<and> rankResults (rankResults rs) = rankResults rs"
proof -
  have "filter (\<lambda>r. trafficScore r = t \<and> difficultyScore r = d) (js_sort compareResults rs)
          = filter (\<lambda>r. trafficScore r = t \<and> difficultyScore r = d) rs"
    by (rule filter_js_sort_tied) (simp add: compareResults_def)
  then show ?thesis
    by (simp add: rankResults_def js_sort_sorted_id sorted_js_sort)
qed

theorem C5_ranker_stable_idempotent_witness:
  "sorted_wrt ranked_before
     [example_result ''b'' 70 10, example_result ''x'' 50 20, example_result ''y'' 50 20]
   \<and> rankResults [example_result ''b'' 70 10, example_result ''x'' 50 20, example_result ''y'' 50 20]
       = [example_result ''b'' 70 10, example_result ''x'' 50 20, example_result ''y'' 50 20]
   \<and> filter (\<lambda>r. trafficScore r = 50 \<and> difficultyScore r = 20)
        (rankResults [example_result ''x'' 50 20, example_result ''b'' 70 10, example_result ''y'' 50 20])
       = [example_result ''x'' 50 20, example_result ''y'' 50 20]"
  using C5_ranker_stable_idempotent
    [of 50 20 "[example_result ''b'' 70 10, example_result ''x'' 50 20, example_result ''y'' 50 20]"]
    C5_ranker_stable_idempotent
    [of 50 20 "[example_result ''x'' 50 20, example_result ''b'' 70 10, example_result ''y'' 50 20]"]
  by (simp add: ranked_before_def example_result_def)

lemma js_insert_map:
  "map f (js_insert (\<lambda>p q. cmp (f p) (f q)) a bs) = js_insert cmp (f a) (map f bs)"
  by (induction bs) auto

lemma js_sort_map:
  "map f (js_sort (\<lambda>p q. cmp (f p) (f q)) as) = js_sort cmp (map f as)"
  by (induction as) (auto simp: js_insert_map)

text \<open>
  C6, as stated, fails. The specification asks that the Ranker leaves its input sequence
  as it was and returns a fresh sequence. \<open>results.sort\<close> reorders the array \<open>results\<close>
  itself and returns that array: for the array [a(50/30), b(70/10), c(50/20)] at
  reference 0 the array at reference 0 holds b, c, a afterwards, and the reference
  returned is 0.
\<close>

theorem C6_counterexample:
  "arrays (snd (sortResults 0 example_heap)) 0 \<noteq> arrays example_heap 0
   \<and> arrays example_heap 0 = [1, 2, 3]
   \<and> arrays (snd (sortResults 0 example_heap)) 0 = [2, 3, 1]
   \<and> fst (sortResults 0 example_heap) = 0"
  by (simp add: sortResults_def Array_sort_def example_heap_def compareResults_def example_result_def)

text \<open>
  C6, amended. The Ranker sorts the array \<open>results\<close> in place and returns that same
  array. Nothing else changes: no element object is modified, no other array is
  touched, and the array holds the same references as before, each as often as before,
  now in ranking order.
\<close>

theorem C6_ranker_in_place:
  "fst (sortResults rs h) = rs
   \<and> objects (snd (sortResults rs h)) = objects h
   \<and> (\<forall>b. b \<noteq> rs \<longrightarrow> arrays (snd (sortResults rs h)) b = arrays h b)
   \<and> mset (arrays (snd (sortResults rs h)) rs) = mset (arrays h rs)
   \<and> map (objects (snd (sortResults rs h))) (arrays (snd (sortResults rs h)) rs)
       = rankResults (map (objects h) (arrays h rs))"
  by (simp add: sortResults_def Array_sort_def mset_js_sort js_sort_map rankResults_def)

theorem C6_ranker_in_place_witness:
  "(1::nat) \<noteq> 0
   \<and> arrays (snd (sortResults 0 example_heap)) 1 = arrays example_heap 1
   \<and> objects (snd (sortResults 0 example_heap)) = objects example_heap
   \<and> map (objects (snd (sortResults 0 example_heap))) (arrays (snd (sortResults 0 example_heap)) 0)
       = [example_result ''b'' 70 10, example_result ''c'' 50 20, example_result ''a'' 50 30]"
proof -
  note t = C6_ranker_in_place [of 0 example_heap]
  have a: "arrays (snd (sortResults 0 example_heap)) 1 = arrays example_heap 1"
    using t by simp
  have o: "objects (snd (sortResults 0 example_heap)) = objects example_heap"
    using t by simp
  have e1: "map (objects example_heap) (arrays example_heap 0)
      = [example_result ''a'' 50 30, example_result ''b'' 70 10, example_result ''c'' 50 20]"
    by (simp add: example_heap_def)
  have e2: "rankResults [example_result ''a'' 50 30, example_result ''b'' 70 10, example_result ''c'' 50 20]
      = [example_result ''b'' 70 10, example_result ''c'' 50 20, example_result ''a'' 50 30]"
    by (simp add: rankResults_def compareResults_def example_result_def)
  have "map (objects (snd (sortResults 0 example_heap))) (arrays (snd (sortResults 0 example_heap)) 0)
       = rankResults (map (objects example_heap) (arrays example_heap 0))"
    by (rule t [THEN conjunct2, THEN conjunct2, THEN conjunct2, THEN conjunct2])
  then have m: "map (objects (snd (sortResults 0 example_heap))) (arrays (snd (sortResults 0 example_heap)) 0)
       = [example_result ''b'' 70 10, example_result ''c'' 50 20, example_result ''a'' 50 30]"
    by (simp only: e1 e2)
  from a o m show ?thesis by (intro conjI) simp_all
qed

section \<open>Properties of the batch orchestrator\<close>

lemma js_slice_batch:
  "1 \<le> bs \<Longrightarrow> js_slice xs (int i) (int i + bs) = take (nat bs) (drop i xs)"
  by (auto simp: js_slice_def Let_def min_def nat_diff_distrib nat_add_distrib)

lemma snd_analyzeKeywordParallel: "snd (analyzeKeywordParallel kw an n) = [Issue kw]"
  by (simp add: analyzeKeywordParallel_def split: settled.split)

lemma map2_results_from:
  "map fst (map2 (\<lambda>k kw. analyzeKeywordParallel kw an (n + k)) [0..<length b] b) = results_from an n b"
proof (induction b arbitrary: n)
  case Nil
  show ?case by simp
next
  case (Cons kw b)
  have "[0..<length (kw # b)] = 0 # map Suc [0..<length b]"
    by (simp add: upt_conv_Cons map_Suc_upt del: upt_Suc)
  then show ?case
    using Cons.IH [of "Suc n"] by (simp add: zip_map1 split_def o_def del: upt_Suc)
qed

lemma map2_issue:
  "concat (map snd (map2 (\<lambda>k kw. analyzeKeywordParallel kw an (n + k)) [0..<length b] b)) = map Issue b"
proof (induction b arbitrary: n)
  case Nil
  show ?case by simp
next
  case (Cons kw b)
  have "[0..<length (kw # b)] = 0 # map Suc [0..<length b]"
    by (simp add: upt_conv_Cons map_Suc_upt del: upt_Suc)
  then show ?case
    using Cons.IH [of "Suc n"]
    by (simp add: zip_map1 split_def o_def snd_analyzeKeywordParallel del: upt_Suc)
qed

lemma results_from_append:
  "results_from an n (xs @ ys) = results_from an n xs @ results_from an (n + length xs) ys"
  by (induction xs arbitrary: n) auto

lemma length_results_from: "length (results_from an n kws) = length kws"
  by (induction kws arbitrary: n) auto

lemma nth_results_from:
  "j < length kws \<Longrightarrow> results_from an n kws ! j = fst (analyzeKeywordParallel (kws ! j) an (n + j))"
proof (induction kws arbitrary: n j)
  case Nil
  then show ?case by simp
next
  case (Cons kw kws)
  then show ?case by (cases j) auto
qed

lemma body_closed:
  assumes "1 \<le> bs"
  shows "processKeywordsBatch_body kws an bs (int i) st =
     \<lparr>results = results st @ results_from an (issued st) (take (nat bs) (drop i kws)),
      trace = trace st @ batch_events (take (nat bs) (drop i kws))
                @ (if i + nat bs < length kws then [Delay 1000] else []),
      issued = issued st + length (take (nat bs) (drop i kws))\<rparr>"
proof -
  define b where "b = take (nat bs) (drop i kws)"
  have c: "(int i + bs < int (length kws)) = (i + nat bs < length kws)"
    using assms by linarith
  have "processKeywordsBatch_body kws an bs (int i) st =
     \<lparr>results = results st @ results_from an (issued st) b,
      trace = trace st @ batch_events b @ (if i + nat bs < length kws then [Delay 1000] else []),
      issued = issued st + length b\<rparr>"
    unfolding processKeywordsBatch_body_def Let_def js_slice_batch [OF assms] c b_def [symmetric]
      map2_results_from map2_issue
    by (simp add: batch_events_def)
  then show ?thesis by (simp only: b_def)
qed

lemma chunks_Nil [simp]: "chunks w [] = []"
  by (simp add: chunks.simps)

lemma chunks_step: "0 < w \<Longrightarrow> xs \<noteq> [] \<Longrightarrow> chunks w xs = take w xs # chunks w (drop w xs)"
  by (subst chunks.simps) simp

lemma chunks_eq_Nil: "0 < w \<Longrightarrow> chunks w xs = [] \<longleftrightarrow> xs = []"
  by (subst chunks.simps) simp

lemma join_with_Cons:
  "join_with d (b # bs) = b @ (if bs = [] then [] else d @ join_with d bs)"
  by (cases bs) auto

lemma loop_closed:
  assumes "1 \<le> bs"
  shows "processKeywordsBatch_loop kws an bs (int i) st =
     Some \<lparr>results = results st @ results_from an (issued st) (drop i kws),
           trace = trace st @ join_with [Delay 1000] (map batch_events (chunks (nat bs) (drop i kws))),
           issued = issued st + length (drop i kws)\<rparr>"
proof (induction "length kws - i" arbitrary: i st rule: less_induct)
  case less
  define w where "w = nat bs"
  have w: "0 < w" "int w = bs" using assms by (auto simp: w_def)
  show ?case
  proof (cases "i < length kws")
    case False
    then show ?thesis
      by (subst processKeywordsBatch_loop.simps) simp
  next
    case True
    define rest where "rest = drop i kws"
    have rest: "rest \<noteq> []" using True by (simp add: rest_def)
    let ?st' = "processKeywordsBatch_body kws an bs (int i) st"
    have step: "processKeywordsBatch_loop kws an bs (int i) st
                 = processKeywordsBatch_loop kws an bs (int (i + w)) ?st'"
      using True w by (subst processKeywordsBatch_loop.simps) (simp add: add.commute)
    have dr: "drop (i + w) kws = drop w rest"
      by (simp add: rest_def add.commute)
    have more: "(i + w < length kws) = (drop w rest \<noteq> [])"
      by (auto simp: rest_def)
    have ih: "processKeywordsBatch_loop kws an bs (int (i + w)) ?st' =
        Some \<lparr>results = results ?st' @ results_from an (issued ?st') (drop w rest),
              trace = trace ?st' @ join_with [Delay 1000] (map batch_events (chunks w (drop w rest))),
              issued = issued ?st' + length (drop w rest)\<rparr>"
    proof -
      have "length kws - (i + w) < length kws - i" using True w by simp
      from less [OF this, of ?st'] show ?thesis by (simp only: w_def [symmetric] dr)
    qed
    have res: "results_from an (issued st) (take w rest)
                 @ results_from an (issued st + length (take w rest)) (drop w rest)
               = results_from an (issued st) rest"
      using results_from_append [of an "issued st" "take w rest" "drop w rest"] by simp
    have tr: "batch_events (take w rest) @ (if i + w < length kws then [Delay 1000] else [])
                @ join_with [Delay 1000] (map batch_events (chunks w (drop w rest)))
              = join_with [Delay 1000] (map batch_events (chunks w rest))"
      using w rest by (simp add: chunks_step [of w rest] join_with_Cons more chunks_eq_Nil)
    have len: "length (take w rest) + length (drop w rest) = length rest"
      by simp
    show ?thesis
      unfolding step ih
      unfolding body_closed [OF assms]
      using res tr len
      by (simp add: w_def [symmetric] rest_def [symmetric] del: length_take length_drop)
  qed
qed

lemma loop_Some_advances:
  assumes "processKeywordsBatch_loop kws an bs i st = Some y"
  shows "\<not> (bs \<le> 0 \<and> i < int (length kws))"
proof (rule processKeywordsBatch_loop.raw_induct
         [where P = "\<lambda>kws an bs i st y. \<not> (bs \<le> 0 \<and> i < int (length kws))"])
  show "processKeywordsBatch_loop kws an bs i st = Some y" by (rule assms)
next
  fix loop :: "js_string list \<Rightarrow> ASOAnalyzer \<Rightarrow> int \<Rightarrow> int \<Rightarrow> run_state \<Rightarrow> run_state option"
  fix kwds asoAnalyzer batchSize j s z
  assume ih: "\<And>kwds asoAnalyzer batchSize j s z.
          loop kwds asoAnalyzer batchSize j s = Some z \<Longrightarrow>
          \<not> (batchSize \<le> 0 \<and> j < int (length kwds))"
    and eq: "(if j < int (length kwds)
          then loop kwds asoAnalyzer batchSize (j + batchSize)
                 (processKeywordsBatch_body kwds asoAnalyzer batchSize j s)
          else Some s) = Some z"
  show "\<not> (batchSize \<le> 0 \<and> j < int (length kwds))"
  proof
    assume a: "batchSize \<le> 0 \<and> j < int (length kwds)"
    with eq have "loop kwds asoAnalyzer batchSize (j + batchSize)
          (processKeywordsBatch_body kwds asoAnalyzer batchSize j s) = Some z"
      by simp
    from ih [OF this] a show False by simp
  qed
qed

lemma loop_diverges:
  assumes "bs \<le> 0" and "i < int (length kws)"
  shows "processKeywordsBatch_loop kws an bs i st = None"
proof (cases "processKeywordsBatch_loop kws an bs i st")
  case None
  then show ?thesis .
next
  case (Some y)
  from loop_Some_advances [OF this] assms show ?thesis by simp
qed

lemma concat_chunks: "0 < w \<Longrightarrow> concat (chunks w xs) = xs"
proof (induction w xs rule: chunks.induct)
  case (1 w xs)
  then show ?case by (cases "xs = []") (simp_all add: chunks_step)
qed

lemma length_chunks: "0 < w \<Longrightarrow> length (chunks w xs) = (length xs + w - 1) div w"
proof (induction w xs rule: chunks.induct)
  case (1 w xs)
  show ?case
  proof (cases "xs = []")
    case True
    with 1 show ?thesis by simp
  next
    case False
    then have pos: "0 < length xs" by simp
    have ih: "length (chunks w (drop w xs)) = (length xs - w + w - 1) div w"
      using 1 False by simp
    show ?thesis
    proof (cases "w \<le> length xs")
      case True
      then have "length xs + w - 1 = (length xs - 1) + 1 * w" using pos 1(2) by simp
      then have "(length xs + w - 1) div w = (length xs - 1) div w + 1"
        using 1(2) by (simp only: div_mult_self1)
      with True ih False 1(2) show ?thesis by (simp add: chunks_step)
    next
      case False
      then have "length xs - w = 0" by simp
      moreover have "w \<le> length xs + w - 1" and "length xs + w - 1 < w + w"
        using False pos by linarith+
      then have "(length xs + w - 1) div w = 1"
        by (intro div_nat_eqI) simp_all
      ultimately show ?thesis using ih \<open>xs \<noteq> []\<close> 1(2) by (simp add: chunks_step)
    qed
  qed
qed

lemma ceiling_nat_div:
  assumes "0 < w"
  shows "\<lceil>real L / real w\<rceil> = int ((L + w - 1) div w)"
proof -
  define q where "q = (L + w - 1) div w"
  have a: "q * w \<le> L + w - 1" by (simp add: q_def)
  have b: "L + w - 1 < w + q * w"
    unfolding q_def using assms by (rule dividend_less_div_times)
  from b assms have up: "L \<le> q * w" by simp
  from a assms have lo: "q * w < L + w" by simp
  have "real L \<le> real (q * w)" using up by (simp only: of_nat_le_iff)
  then have 1: "real L / real w \<le> real q"
    using assms by (simp add: pos_divide_le_eq)
  have "real (q * w) < real (L + w)" using lo by (simp only: of_nat_less_iff)
  then have "(real q - 1) * real w < real L"
    by (simp add: algebra_simps)
  then have 2: "real q - 1 < real L / real w"
    using assms by (simp add: pos_less_divide_eq)
  have "\<lceil>real L / real w\<rceil> = int q"
    by (rule ceiling_unique) (use 1 2 in simp_all)
  then show ?thesis by (simp add: q_def)
qed

lemma chunks_lengths:
  "0 < w \<Longrightarrow> b \<in> set (chunks w xs) \<Longrightarrow> 1 \<le> length b \<and> length b \<le> w"
proof (induction w xs rule: chunks.induct)
  case (1 w xs)
  then show ?case by (cases "xs = []") (auto simp: chunks_step Suc_le_eq)
qed

lemma chunks_butlast_full:
  "0 < w \<Longrightarrow> b \<in> set (butlast (chunks w xs)) \<Longrightarrow> length b = w"
proof (induction w xs rule: chunks.induct)
  case (1 w xs)
  show ?case
  proof (cases "xs = []")
    case True
    with 1 show ?thesis by simp
  next
    case False
    show ?thesis
    proof (cases "drop w xs = []")
      case True
      with 1 False show ?thesis by (simp add: chunks_step)
    next
      case d: False
      then have "chunks w (drop w xs) \<noteq> []" using 1(2) by (simp add: chunks_eq_Nil)
      with 1 False d show ?thesis by (auto simp: chunks_step)
    qed
  qed
qed

lemma filter_Delay_batch_events: "filter is_Delay (batch_events b) = []"
  by (induction b) (auto simp: batch_events_def)

lemma filter_Issue_batch_events: "filter is_Issue (batch_events b) = map Issue b"
  by (induction b) (auto simp: batch_events_def)

lemma filter_Delay_join:
  "filter is_Delay (join_with [Delay 1000] (map batch_events cs)) = replicate (length cs - 1) (Delay 1000)"
  by (induction cs rule: induct_list012) (auto simp: filter_Delay_batch_events)

lemma filter_Issue_join:
  "filter is_Issue (join_with [Delay 1000] (map batch_events cs)) = map Issue (concat cs)"
  by (induction cs rule: induct_list012) (auto simp: filter_Issue_batch_events)

lemma processKeywordsBatch_closed:
  assumes "1 \<le> bs"
  shows "processKeywordsBatch kws an bs =
     Some (results_from an 0 kws,
           join_with [Delay 1000] (map batch_events (chunks (nat bs) kws)))"
  using loop_closed [OF assms, of kws an 0 "\<lparr>results = [], trace = [], issued = 0\<rparr>"]
  by (simp add: processKeywordsBatch_def)

text \<open>
  C1. For every keyword sequence and every scorer behaviour (any number of failing
  calls), under a batch size of at least 1 the orchestrator returns; the returned
  sequence has exactly the length of the input, and its entry at position \<open>j\<close> is the
  result of analysing the \<open>j\<close>-th input keyword: one result per keyword, in input order.
\<close>

theorem C1_one_result_per_keyword:
  assumes "1 \<le> batchSize"
  shows "\<exists>rs tr. processKeywordsBatch kws an batchSize = Some (rs, tr)
           \<and> length rs = length kws
           \<and> (\<forall>j < length kws. rs ! j = fst (analyzeKeywordParallel (kws ! j) an j))"
  by (simp add: processKeywordsBatch_closed [OF assms] length_results_from nth_results_from)

lemma example_run:
  "processKeywordsBatch example_keywords example_analyzer 3 = Some
     ([\<lparr>keyword = str ''a'', trafficScore = 10, difficultyScore = 0, competitionLevel = str ''low'',
        trafficLevel = str ''high'', recommendation = str ''target'', error = None\<rparr>,
       \<lparr>keyword = str ''b'', trafficScore = 0, difficultyScore = 0, competitionLevel = str ''unknown'',
        trafficLevel = str ''unknown'', recommendation = str ''analysis_failed'',
        error = Some (str ''timeout'')\<rparr>,
       \<lparr>keyword = str ''cc'', trafficScore = 20, difficultyScore = 2, competitionLevel = str ''low'',
        trafficLevel = str ''high'', recommendation = str ''target'', error = None\<rparr>,
       \<lparr>keyword = str ''d'', trafficScore = 10, difficultyScore = 3, competitionLevel = str ''low'',
        trafficLevel = str ''high'', recommendation = str ''target'', error = None\<rparr>],
      [Issue (str ''a''), Issue (str ''b''), Issue (str ''cc''), AwaitAll 3, Delay 1000,
       Issue (str ''d''), AwaitAll 1])"
  by code_simp

theorem C1_one_result_per_keyword_witness:
  "(1::int) \<le> 3
   \<and> (\<exists>rs tr. processKeywordsBatch example_keywords example_analyzer 3 = Some (rs, tr)
         \<and> length rs = length example_keywords
         \<and> (\<forall>j < length example_keywords.
               rs ! j = fst (analyzeKeywordParallel (example_keywords ! j) example_analyzer j)))
   \<and> map_option (map keyword \<circ> fst) (processKeywordsBatch example_keywords example_analyzer 3)
       = Some example_keywords"
  using C1_one_result_per_keyword [of 3 example_keywords example_analyzer]
  by (simp add: example_run) (simp add: example_keywords_def)

text \<open>
  C10. With a batch size of at least 1 the orchestrator returns for every finite keyword
  list. The precondition is needed: with a batch size of 0 or less and a non-empty list
  the loop never ends.
\<close>

theorem C10_terminates_iff:
  "(1 \<le> batchSize \<longrightarrow> (\<exists>r. processKeywordsBatch kws an batchSize = Some r))
   \<and> (batchSize \<le> 0 \<and> kws \<noteq> [] \<longrightarrow> processKeywordsBatch kws an batchSize = None)"
proof (intro conjI impI)
  assume "1 \<le> batchSize"
  then show "\<exists>r. processKeywordsBatch kws an batchSize = Some r"
    by (simp add: processKeywordsBatch_closed)
next
  assume "batchSize \<le> 0 \<and> kws \<noteq> []"
  then have "processKeywordsBatch_loop kws an batchSize 0 \<lparr>results = [], trace = [], issued = 0\<rparr> = None"
    by (intro loop_diverges) auto
  then show "processKeywordsBatch kws an batchSize = None"
    by (simp add: processKeywordsBatch_def)
qed

theorem C10_terminates_iff_witness:
  "(1::int) \<le> 3
   \<and> (\<exists>r. processKeywordsBatch example_keywords example_analyzer 3 = Some r)
   \<and> (0::int) \<le> 0 \<and> example_keywords \<noteq> []
   \<and> processKeywordsBatch example_keywords example_analyzer 0 = None
   \<and> processKeywordsBatch example_keywords example_analyzer (- 2) = None"
  using C10_terminates_iff [of 3 example_keywords example_analyzer]
    C10_terminates_iff [of 0 example_keywords example_analyzer]
    C10_terminates_iff [of "- 2" example_keywords example_analyzer]
  by (simp add: example_keywords_def)

lemma analyzeKeywordParallel_cong:
  "an n kw = an' n kw \<Longrightarrow> analyzeKeywordParallel kw an n = analyzeKeywordParallel kw an' n"
  by (simp add: analyzeKeywordParallel_def)

text \<open>
  C2. For a batch width \<open>W\<close> of at least 1 (so also for every width from 1 to 20) the run
  consists of the batches of the partition, one after the other, each fully awaited,
  with one delay of a second between two neighbouring batches and none after the last.
  The batches are contiguous and cover the list without overlap (their concatenation is
  the list), there are \<open>\<lceil>L/W\<rceil>\<close> of them, all but the last have exactly \<open>W\<close> keywords,
  each has between 1 and \<open>W\<close>, and the number of delays is \<open>\<lceil>L/W\<rceil> - 1\<close> for a non-empty
  list and zero when \<open>L \<le> W\<close>.
\<close>

theorem C2_batches_and_delays:
  assumes "1 \<le> W"
  shows "\<exists>rs tr. processKeywordsBatch kws an W = Some (rs, tr)
     \<and> tr = join_with [Delay 1000] (map batch_events (chunks (nat W) kws))
     \<and> concat (chunks (nat W) kws) = kws
     \<and> int (length (chunks (nat W) kws)) = \<lceil>real (length kws) / real_of_int W\<rceil>
     \<and> (\<forall>b \<in> set (butlast (chunks (nat W) kws)). int (length b) = W)
     \<and> (\<forall>b \<in> set (chunks (nat W) kws). 1 \<le> length b \<and> int (length b) \<le> W)
     \<and> int (length (filter is_Delay tr))
          = (if kws = [] then 0 else \<lceil>real (length kws) / real_of_int W\<rceil> - 1)
     \<and> (int (length kws) \<le> W \<longrightarrow> filter is_Delay tr = [])"
proof -
  define w where "w = nat W"
  have w: "0 < w" "W = int w" using assms by (auto simp: w_def)
  let ?cs = "chunks w kws"
  let ?tr = "join_with [Delay 1000] (map batch_events ?cs)"
  have run: "processKeywordsBatch kws an (int w) = Some (results_from an 0 kws, ?tr)"
    using processKeywordsBatch_closed [OF assms, of kws an] by (simp add: w)
  have cat: "concat ?cs = kws" using w(1) by (rule concat_chunks)
  have len: "int (length ?cs) = \<lceil>real (length kws) / real w\<rceil>"
    using w(1) by (simp add: length_chunks ceiling_nat_div)
  have full: "\<forall>b \<in> set (butlast ?cs). length b = w"
    using w(1) chunks_butlast_full by blast
  have bounds: "\<forall>b \<in> set ?cs. 1 \<le> length b \<and> length b \<le> w"
    using w(1) chunks_lengths by blast
  have nonempty: "kws \<noteq> [] \<Longrightarrow> 1 \<le> length ?cs"
    using w(1) chunks_eq_Nil [of w kws] by (cases ?cs) auto
  have delays: "length (filter is_Delay ?tr) = length ?cs - 1"
    by (simp add: filter_Delay_join)
  have d1: "int (length (filter is_Delay ?tr))
          = (if kws = [] then 0 else \<lceil>real (length kws) / real w\<rceil> - 1)"
  proof (cases "kws = []")
    case True
    then show ?thesis by (simp add: delays)
  next
    case False
    from nonempty [OF this] have "int (length ?cs - 1) = int (length ?cs) - 1" by simp
    with False show ?thesis by (simp add: delays len)
  qed
  have d2: "length kws \<le> w \<Longrightarrow> filter is_Delay ?tr = []"
  proof -
    assume "length kws \<le> w"
    then have "length kws + w - 1 < 2 * w" using w(1) by simp
    then have "(length kws + w - 1) div w < 2" by (rule less_mult_imp_div_less)
    then have "(length kws + w - 1) div w \<le> 1" by simp
    then show ?thesis using w(1) by (simp add: filter_Delay_join length_chunks)
  qed
  show ?thesis
    unfolding w(2) nat_int run using cat len full bounds d1 d2 by simp
qed

theorem C2_batches_and_delays_witness:
  "(1::int) \<le> 3
   \<and> (\<exists>rs tr. processKeywordsBatch seven_keywords example_analyzer 3 = Some (rs, tr)
     \<and> tr = join_with [Delay 1000] (map batch_events (chunks (nat 3) seven_keywords))
     \<and> concat (chunks (nat 3) seven_keywords) = seven_keywords
     \<and> int (length (chunks (nat 3) seven_keywords)) = \<lceil>real (length seven_keywords) / real_of_int 3\<rceil>
     \<and> (\<forall>b \<in> set (butlast (chunks (nat 3) seven_keywords)). int (length b) = 3)
     \<and> (\<forall>b \<in> set (chunks (nat 3) seven_keywords). 1 \<le> length b \<and> int (length b) \<le> 3)
     \<and> int (length (filter is_Delay tr))
          = (if seven_keywords = [] then 0 else \<lceil>real (length seven_keywords) / real_of_int 3\<rceil> - 1)
     \<and> (int (length seven_keywords) \<le> 3 \<longrightarrow> filter is_Delay tr = []))
   \<and> map length (chunks 3 seven_keywords) = [3, 3, 1]
   \<and> map_option (length \<circ> filter is_Delay \<circ> snd) (processKeywordsBatch seven_keywords example_analyzer 3) = Some 2"
proof -
  have h: "(1::int) \<le> 3" by simp
  have c: "map length (chunks 3 seven_keywords) = [3, 3, 1]"
    by (simp add: seven_keywords_def chunks.simps)
  have d: "map_option (length \<circ> filter is_Delay \<circ> snd)
             (processKeywordsBatch seven_keywords example_analyzer 3) = Some 2"
    by code_simp
  from C2_batches_and_delays [OF h, of seven_keywords example_analyzer] h c d
  show ?thesis by blast
qed

text \<open>
  C3. When the scorer call of the keyword at position \<open>j\<close> fails, the run still returns
  one result per keyword; the result at \<open>j\<close> is the degraded one (both scores 0, both
  levels \<open>unknown\<close>, recommendation \<open>analysis_failed\<close>, the error message); every
  keyword's call is issued exactly once, in input order, so the failed call is not
  repeated; and whatever the call at \<open>j\<close> does, the results at all other positions and
  the sequence of calls, waits and delays are the same.
\<close>

theorem C3_failure_isolated:
  assumes "1 \<le> batchSize" and "j < length kws" and "an j (kws ! j) = Rejected message"
  shows "\<exists>rs tr. processKeywordsBatch kws an batchSize = Some (rs, tr)
     \<and> length rs = length kws
     \<and> rs ! j = \<lparr>keyword = kws ! j, trafficScore = 0, difficultyScore = 0,
                 competitionLevel = str ''unknown'', trafficLevel = str ''unknown'',
                 recommendation = str ''analysis_failed'', error = Some message\<rparr>
     \<and> filter is_Issue tr = map Issue kws
     \<and> (\<forall>an'. (\<forall>k kw. k \<noteq> j \<longrightarrow> an' k kw = an k kw) \<longrightarrow>
           (\<exists>rs' tr'. processKeywordsBatch kws an' batchSize = Some (rs', tr')
              \<and> tr' = tr \<and> length rs' = length rs
              \<and> (\<forall>k < length kws. k \<noteq> j \<longrightarrow> rs' ! k = rs ! k)))"
proof -
  have w: "0 < nat batchSize" using assms(1) by simp
  have deg: "results_from an 0 kws ! j
       = \<lparr>keyword = kws ! j, trafficScore = 0, difficultyScore = 0,
          competitionLevel = str ''unknown'', trafficLevel = str ''unknown'',
          recommendation = str ''analysis_failed'', error = Some message\<rparr>"
    using assms(2,3) by (simp add: nth_results_from analyzeKeywordParallel_def)
  have issue: "filter is_Issue (join_with [Delay 1000] (map batch_events (chunks (nat batchSize) kws)))
       = map Issue kws"
    using w by (simp add: filter_Issue_join concat_chunks)
  have run: "processKeywordsBatch kws an' batchSize =
       Some (results_from an' 0 kws,
             join_with [Delay 1000] (map batch_events (chunks (nat batchSize) kws)))" for an'
    by (rule processKeywordsBatch_closed [OF assms(1)])
  have iso: "\<exists>rs' tr'. processKeywordsBatch kws an' batchSize = Some (rs', tr')
        \<and> tr' = join_with [Delay 1000] (map batch_events (chunks (nat batchSize) kws))
        \<and> length rs' = length (results_from an 0 kws)
        \<and> (\<forall>k < length kws. k \<noteq> j \<longrightarrow> rs' ! k = results_from an 0 kws ! k)"
    if h: "\<forall>k kw. k \<noteq> j \<longrightarrow> an' k kw = an k kw" for an'
  proof -
    have "\<forall>k < length kws. k \<noteq> j \<longrightarrow> results_from an' 0 kws ! k = results_from an 0 kws ! k"
      using h by (simp add: nth_results_from analyzeKeywordParallel_def)
    then show ?thesis
      unfolding run by (simp add: length_results_from)
  qed
  show ?thesis
  proof (intro exI conjI)
    show "processKeywordsBatch kws an batchSize =
       Some (results_from an 0 kws,
             join_with [Delay 1000] (map batch_events (chunks (nat batchSize) kws)))"
      by (rule run)
    show "length (results_from an 0 kws) = length kws"
      by (rule length_results_from)
    show "results_from an 0 kws ! j
       = \<lparr>keyword = kws ! j, trafficScore = 0, difficultyScore = 0,
          competitionLevel = str ''unknown'', trafficLevel = str ''unknown'',
          recommendation = str ''analysis_failed'', error = Some message\<rparr>"
      by (rule deg)
    show "filter is_Issue (join_with [Delay 1000] (map batch_events (chunks (nat batchSize) kws)))
       = map Issue kws"
      by (rule issue)
    show "\<forall>an'. (\<forall>k kw. k \<noteq> j \<longrightarrow> an' k kw = an k kw) \<longrightarrow>
           (\<exists>rs' tr'. processKeywordsBatch kws an' batchSize = Some (rs', tr')
              \<and> tr' = join_with [Delay 1000] (map batch_events (chunks (nat batchSize) kws))
              \<and> length rs' = length (results_from an 0 kws)
              \<and> (\<forall>k < length kws. k \<noteq> j \<longrightarrow> rs' ! k = results_from an 0 kws ! k))"
      using iso by blast
  qed
qed

theorem C3_failure_isolated_witness:
  "(1::int) \<le> 3 \<and> 1 < length example_keywords
   \<and> example_analyzer 1 (example_keywords ! 1) = Rejected (str ''timeout'')
   \<and> (\<exists>rs tr. processKeywordsBatch example_keywords example_analyzer 3 = Some (rs, tr)
     \<and> length rs = length example_keywords
     \<and> rs ! 1 = \<lparr>keyword = example_keywords ! 1, trafficScore = 0, difficultyScore = 0,
                 competitionLevel = str ''unknown'', trafficLevel = str ''unknown'',
                 recommendation = str ''analysis_failed'', error = Some (str ''timeout'')\<rparr>
     \<and> filter is_Issue tr = map Issue example_keywords
     \<and> (\<forall>an'. (\<forall>k kw. k \<noteq> 1 \<longrightarrow> an' k kw = example_analyzer k kw) \<longrightarrow>
           (\<exists>rs' tr'. processKeywordsBatch example_keywords an' 3 = Some (rs', tr')
              \<and> tr' = tr \<and> length rs' = length rs
              \<and> (\<forall>k < length example_keywords. k \<noteq> 1 \<longrightarrow> rs' ! k = rs ! k))))"
proof -
  have h1: "(1::int) \<le> 3" by simp
  have h2: "1 < length example_keywords" by (simp add: example_keywords_def)
  have h3: "example_analyzer 1 (example_keywords ! 1) = Rejected (str ''timeout'')"
    by (simp add: example_keywords_def example_analyzer_def)
  from C3_failure_isolated
         [of 3 1 example_keywords example_analyzer "str ''timeout''", OF h1 h2 h3] h1 h2 h3
  show ?thesis by blast
qed

section \<open>Properties of the keyword normalizer\<close>

lemma js_split_not_Nil: "js_split sep s \<noteq> []"
  by (induction s) (auto split: list.split)

lemma join_js_split: "join_with [sep] (js_split sep s) = s"
proof (induction s)
  case Nil
  show ?case by simp
next
  case (Cons c cs)
  obtain p ps where r: "js_split sep cs = p # ps"
    using js_split_not_Nil [of sep cs] by (cases "js_split sep cs") auto
  with Cons show ?case by (auto simp: join_with_Cons)
qed

lemma js_split_no_sep: "p \<in> set (js_split sep s) \<Longrightarrow> sep \<notin> set p"
  by (induction s arbitrary: p) (auto split: list.splits if_splits)

lemma rev_dropWhile_takeWhile:
  "t = rev (dropWhile P (rev t)) @ rev (takeWhile P (rev t))"
  by (metis rev_append rev_rev_ident takeWhile_dropWhile_id)

lemma js_trim_decompose:
  "s = takeWhile is_js_whitespace s @ js_trim s
         @ rev (takeWhile is_js_whitespace (rev (dropWhile is_js_whitespace s)))"
proof -
  have "dropWhile is_js_whitespace s
          = js_trim s @ rev (takeWhile is_js_whitespace (rev (dropWhile is_js_whitespace s)))"
    unfolding js_trim_def by (rule rev_dropWhile_takeWhile)
  then have "takeWhile is_js_whitespace s @ dropWhile is_js_whitespace s
          = takeWhile is_js_whitespace s @ js_trim s
              @ rev (takeWhile is_js_whitespace (rev (dropWhile is_js_whitespace s)))"
    by (simp only:)
  then show ?thesis by (simp only: takeWhile_dropWhile_id)
qed

lemma js_trim_last: "js_trim s \<noteq> [] \<Longrightarrow> \<not> is_js_whitespace (last (js_trim s))"
  by (simp add: js_trim_def last_rev hd_dropWhile)

lemma js_trim_hd:
  assumes "js_trim s \<noteq> []"
  shows "\<not> is_js_whitespace (hd (js_trim s))"
proof -
  define t where "t = dropWhile is_js_whitespace s"
  have t: "t = js_trim s @ rev (takeWhile is_js_whitespace (rev t))"
    unfolding js_trim_def t_def by (rule rev_dropWhile_takeWhile)
  with assms have "t \<noteq> []" by auto
  moreover from t assms have "hd t = hd (js_trim s)" by (metis hd_append2)
  ultimately show ?thesis using hd_dropWhile [of is_js_whitespace s] by (simp add: t_def)
qed

lemma dropWhile_all: "(\<forall>x \<in> set (dropWhile P s). P x) \<longleftrightarrow> (\<forall>x \<in> set s. P x)"
proof
  assume a: "\<forall>x \<in> set (dropWhile P s). P x"
  have "dropWhile P s = []"
  proof (rule ccontr)
    assume n: "dropWhile P s \<noteq> []"
    then have "\<not> P (hd (dropWhile P s))" by (rule hd_dropWhile)
    moreover from n have "hd (dropWhile P s) \<in> set (dropWhile P s)" by simp
    ultimately show False using a by blast
  qed
  then show "\<forall>x \<in> set s. P x" by (simp add: dropWhile_eq_Nil_conv)
next
  assume "\<forall>x \<in> set s. P x"
  then show "\<forall>x \<in> set (dropWhile P s). P x" by (meson set_dropWhileD)
qed

lemma js_trim_eq_Nil: "js_trim s = [] \<longleftrightarrow> (\<forall>c \<in> set s. is_js_whitespace c)"
  by (simp add: js_trim_def dropWhile_all)

text \<open>
  C8. For every input string the Normalizer cuts the string at its commas (the pieces,
  joined by commas again, are the input, and no piece holds a comma), strips each piece
  of the whitespace around it (a piece is its trimmed form between two runs of
  whitespace), and returns the non-empty trimmed pieces in their order, duplicates
  included. No returned keyword is empty or begins or ends with whitespace; as many
  keywords are returned as there are pieces that are not all whitespace; the string
  \<open>" a, b ,, c "\<close> gives a, b, c. When no keyword is left, \<open>searchKeywords\<close> returns the
  empty array without calling the scorer.
\<close>

theorem C8_normalizer:
  "normalizeKeywords s = filter (\<lambda>p. p \<noteq> []) (map js_trim (js_split 44 s))
   \<and> join_with [44] (js_split 44 s) = s
   \<and> (\<forall>p \<in> set (js_split 44 s). 44 \<notin> set p
         \<and> (\<exists>a b. p = a @ js_trim p @ b
                \<and> (\<forall>c \<in> set a. is_js_whitespace c) \<and> (\<forall>c \<in> set b. is_js_whitespace c)))
   \<and> (\<forall>k \<in> set (normalizeKeywords s).
         k \<noteq> [] \<and> \<not> is_js_whitespace (hd k) \<and> \<not> is_js_whitespace (last k))
   \<and> length (normalizeKeywords s)
       = length (filter (\<lambda>p. \<not> (\<forall>c \<in> set p. is_js_whitespace c)) (js_split 44 s))
   \<and> normalizeKeywords (str '' a, b ,, c '') = [str ''a'', str ''b'', str ''c'']
   \<and> (normalizeKeywords s = [] \<longrightarrow> searchKeywords s concurrency an = Some ([], []))"
proof (intro conjI)
  show "normalizeKeywords s = filter (\<lambda>p. p \<noteq> []) (map js_trim (js_split 44 s))"
    by (simp add: normalizeKeywords_def)
  show "join_with [44] (js_split 44 s) = s"
    by (rule join_js_split)
  show "\<forall>p \<in> set (js_split 44 s). 44 \<notin> set p
         \<and> (\<exists>a b. p = a @ js_trim p @ b
                \<and> (\<forall>c \<in> set a. is_js_whitespace c) \<and> (\<forall>c \<in> set b. is_js_whitespace c))"
  proof
    fix p
    assume p: "p \<in> set (js_split 44 s)"
    let ?a = "takeWhile is_js_whitespace p"
    let ?b = "rev (takeWhile is_js_whitespace (rev (dropWhile is_js_whitespace p)))"
    have "p = ?a @ js_trim p @ ?b" by (rule js_trim_decompose)
    moreover have "\<forall>c \<in> set ?a. is_js_whitespace c" by (auto dest: set_takeWhileD)
    moreover have "\<forall>c \<in> set ?b. is_js_whitespace c" by (auto dest: set_takeWhileD)
    ultimately have "\<exists>a b. p = a @ js_trim p @ b
                \<and> (\<forall>c \<in> set a. is_js_whitespace c) \<and> (\<forall>c \<in> set b. is_js_whitespace c)"
      by blast
    with js_split_no_sep [OF p]
    show "44 \<notin> set p \<and> (\<exists>a b. p = a @ js_trim p @ b
                \<and> (\<forall>c \<in> set a. is_js_whitespace c) \<and> (\<forall>c \<in> set b. is_js_whitespace c))"
      by simp
  qed
  show "\<forall>k \<in> set (normalizeKeywords s).
         k \<noteq> [] \<and> \<not> is_js_whitespace (hd k) \<and> \<not> is_js_whitespace (last k)"
    by (auto simp: normalizeKeywords_def js_trim_hd js_trim_last)
  show "length (normalizeKeywords s)
       = length (filter (\<lambda>p. \<not> (\<forall>c \<in> set p. is_js_whitespace c)) (js_split 44 s))"
    by (simp add: normalizeKeywords_def filter_map o_def js_trim_eq_Nil)
  show "normalizeKeywords (str '' a, b ,, c '') = [str ''a'', str ''b'', str ''c'']"
    by (simp add: normalizeKeywords_def str_def js_trim_def is_js_whitespace_def)
  show "normalizeKeywords s = [] \<longrightarrow> searchKeywords s concurrency an = Some ([], [])"
    by (simp add: searchKeywords_def)
qed

theorem C8_normalizer_witness:
  "str ''a'' \<in> set (normalizeKeywords (str '' a, b ,, c ''))
   \<and> str ''a'' \<noteq> []
   \<and> \<not> is_js_whitespace (hd (str ''a'')) \<and> \<not> is_js_whitespace (last (str ''a''))
   \<and> length (normalizeKeywords (str '' a, b ,, c '')) = 3
   \<and> normalizeKeywords (str '' , ,'') = []
   \<and> searchKeywords (str '' , ,'') 3 example_analyzer = Some ([], [])"
proof -
  note first = C8_normalizer [of "str '' a, b ,, c ''" 3 example_analyzer]
  note second = C8_normalizer [of "str '' , ,''" 3 example_analyzer]
  have e: "normalizeKeywords (str '' , ,'') = []"
    by (simp add: normalizeKeywords_def str_def js_trim_def is_js_whitespace_def)
  have m: "str ''a'' \<in> set (normalizeKeywords (str '' a, b ,, c ''))"
    by (simp add: normalizeKeywords_def str_def js_trim_def is_js_whitespace_def)
  have l: "length (normalizeKeywords (str '' a, b ,, c '')) = 3"
    by (simp add: normalizeKeywords_def str_def js_trim_def is_js_whitespace_def)
  have "\<forall>k \<in> set (normalizeKeywords (str '' a, b ,, c '')).
         k \<noteq> [] \<and> \<not> is_js_whitespace (hd k) \<and> \<not> is_js_whitespace (last k)"
    by (rule first [THEN conjunct2, THEN conjunct2, THEN conjunct2, THEN conjunct1])
  from bspec [OF this m]
  have k: "str ''a'' \<noteq> [] \<and> \<not> is_js_whitespace (hd (str ''a''))
             \<and> \<not> is_js_whitespace (last (str ''a''))" .
  have "normalizeKeywords (str '' , ,'') = []
          \<longrightarrow> searchKeywords (str '' , ,'') 3 example_analyzer = Some ([], [])"
    by (rule second [THEN conjunct2, THEN conjunct2, THEN conjunct2, THEN conjunct2,
                     THEN conjunct2, THEN conjunct2])
  with e have r: "searchKeywords (str '' , ,'') 3 example_analyzer = Some ([], [])"
    by (rule rev_mp)
  from m k l e r show ?thesis by (intro conjI) simp_all
qed

section \<open>Properties of the command line\<close>

lemma parseInt_0: "js_parseInt (str ''0'') 0 = Some 0"
  by (simp add: js_parseInt_def str_def is_js_whitespace_def digit_value_def Let_def)

lemma parseInt_25: "js_parseInt (str ''25'') 0 = Some 25"
  by (simp add: js_parseInt_def str_def is_js_whitespace_def digit_value_def Let_def)

lemma arg_at_Nil: "arg_at [] k = None"
  by (simp add: arg_at_def)

lemma arg_at_Cons: "arg_at (x # xs) k = (if k = 0 then Some x else arg_at xs (k - 1))"
  by (cases k) (simp_all add: arg_at_def)

lemma str_Cons_not_Nil: "str (c # cs) \<noteq> []"
  by (simp add: str_def)

lemma cli_search_in_range:
  "cli_main args = CallSearchKeywords ks c \<Longrightarrow> 1 \<le> c \<and> c \<le> 20"
  by (auto simp: cli_main_def Let_def split: if_splits option.splits)

lemma cli_rejects_nonzero_out_of_range:
  assumes "ks \<noteq> []" and "js_parseInt a 0 = Some n" and "n \<noteq> 0" and "n < 1 \<or> 20 < n"
  shows "cli_main [str ''-search'', ks, a] = Exit 1"
  using assms by (simp add: cli_main_def arg_at_Cons arg_at_Nil js_ToString_arg_def)

text \<open>
  C7. The specification asks that a concurrency argument outside 1..20, with 0 and 25
  named, ends the run with a validation error and exit code 1 before any keyword is
  analysed. The program rejects 25. For the argument 0 it reports nothing:
  \<open>parseInt("0") || 3\<close> is 3, the range check passes, and \<open>searchKeywords\<close> is called
  with concurrency 3.
\<close>

theorem C7_concurrency_zero_not_rejected:
  "cli_main [str ''-search'', str ''a,b'', str ''0''] = CallSearchKeywords (str ''a,b'') 3
   \<and> cli_main [str ''-search'', str ''a,b'', str ''25''] = Exit 1"
  by (simp add: cli_main_def arg_at_Cons arg_at_Nil str_Cons_not_Nil js_ToString_arg_def
        parseInt_0 parseInt_25)

section \<open>Properties of collectAppData\<close>

lemma js_slice_take: "js_slice xs 0 (int k) = take k xs"
  by (simp add: js_slice_def Let_def min_def)

lemma scrapeSimilarApps_outcomes:
  "scrapeSimilarApps g n sids acc warned
     = (acc @ fetched_of (outcomes g n sids), warned @ failed_of (outcomes g n sids))"
  by (induction sids arbitrary: n acc warned) (auto split: fetched.splits)

lemma length_outcomes: "length (outcomes g n sids) = length sids"
  by (induction sids arbitrary: n) auto

lemma map_fst_outcomes: "map fst (outcomes g n sids) = sids"
  by (induction sids arbitrary: n) auto

lemma nth_outcomes: "k < length sids \<Longrightarrow> outcomes g n sids ! k = (sids ! k, g (n + k) (sids ! k))"
proof (induction sids arbitrary: n k)
  case Nil
  then show ?case by simp
next
  case (Cons sid sids)
  then show ?case by (cases k) auto
qed

lemma fetched_failed_length: "length (fetched_of os) + length (failed_of os) = length os"
  by (induction os rule: fetched_of.induct) auto

text \<open>
  C9. When the app id is valid and the fetches of the primary app and of the list of
  similar apps succeed, \<open>collectAppData\<close> returns the primary app's record untouched and
  fetches each of the first three similar apps, in the order returned, one call each. A
  fetch that fails is logged and its app left out; the fetches after it are still made.
  The result holds the records of the successful fetches in the original order: at
  most three, as many as the first three minus the failed ones, and exactly two when
  one of three fails.
\<close>

theorem C9_similar_apps_isolated:
  assumes "js_parseInt appId 10 = Some n" and "0 < n"
    and "getAppData 0 n = Fetched main" and "getSimilarApps n = Fetched sims"
  shows "\<exists>similar warned.
      collectAppData getAppData getSimilarApps appId = Inr ((main, similar, n), warned)
      \<and> map fst (outcomes getAppData 1 (take 3 sims)) = take 3 sims
      \<and> (\<forall>k < length (take 3 sims).
            snd (outcomes getAppData 1 (take 3 sims) ! k) = getAppData (Suc k) (sims ! k))
      \<and> similar = fetched_of (outcomes getAppData 1 (take 3 sims))
      \<and> warned = failed_of (outcomes getAppData 1 (take 3 sims))
      \<and> length similar + length warned = min 3 (length sims)
      \<and> length similar \<le> 3
      \<and> (3 \<le> length sims \<and> length warned = 1 \<longrightarrow> length similar = 2)"
proof -
  let ?os = "outcomes getAppData 1 (take 3 sims)"
  have run: "collectAppData getAppData getSimilarApps appId
      = Inr ((main, fetched_of ?os, n), failed_of ?os)"
    using assms js_slice_take [of sims 3]
    by (simp add: collectAppData_def scrapeSimilarApps_outcomes Let_def)
  have len: "length (fetched_of ?os) + length (failed_of ?os) = min 3 (length sims)"
    by (simp add: fetched_failed_length length_outcomes min.commute)
  have nth: "\<forall>k < length (take 3 sims). snd (?os ! k) = getAppData (Suc k) (sims ! k)"
    by (simp add: nth_outcomes)
  show ?thesis
    unfolding run using len nth by (auto simp: map_fst_outcomes)
qed

lemma example_parse: "js_parseInt (str ''5'') 10 = Some 5"
  by (simp add: js_parseInt_def str_def is_js_whitespace_def digit_value_def Let_def)

theorem C9_similar_apps_isolated_witness:
  "js_parseInt (str ''5'') 10 = Some 5 \<and> (0::int) < 5
   \<and> example_getAppData 0 5 = Fetched (str ''main'')
   \<and> example_getSimilarApps 5 = Fetched [10, 20, 30, 40]
   \<and> example_getAppData 2 20 = FetchFailed (str ''not found'')
   \<and> collectAppData example_getAppData example_getSimilarApps (str ''5'')
        = Inr ((str ''main'', [str ''ten'', str ''thirty''], 5), [20])"
proof -
  have h1: "js_parseInt (str ''5'') 10 = Some 5" by (rule example_parse)
  have h2: "(0::int) < 5" by simp
  have h3: "example_getAppData 0 5 = Fetched (str ''main'')"
    by (simp add: example_getAppData_def)
  have h4: "example_getSimilarApps 5 = Fetched [10, 20, 30, 40]"
    by (simp add: example_getSimilarApps_def)
  have h5: "example_getAppData 2 20 = FetchFailed (str ''not found'')"
    by (simp add: example_getAppData_def)
  from C9_similar_apps_isolated
         [where appId = "str ''5''" and n = 5 and getAppData = example_getAppData
            and main = "str ''main''" and getSimilarApps = example_getSimilarApps
            and sims = "[10, 20, 30, 40]", OF h1 h2 h3 h4]
  have "collectAppData example_getAppData example_getSimilarApps (str ''5'')
        = Inr ((str ''main'', [str ''ten'', str ''thirty''], 5), [20])"
    by (auto simp: example_getAppData_def)
  with h1 h2 h3 h4 h5 show ?thesis by (intro conjI)
qed

end
